theory Spec2Isabelle
  imports Main
begin

section \<open>Data model\<close>

text \<open>
  Exceptions the nodes can raise. The source has no raise statement of its own: these are the
  exceptions of the Python operations it performs. \<open>UnboundLocalError\<close> is Python's subclass of
  \<open>NameError\<close> for a local variable read before assignment; \<open>BackendError\<close> is any exception of
  the generation backend, which no node catches. \<open>ProtocolViolation\<close> is the fault named by the
  specification; no path of the source constructs it.
\<close>

datatype exn =
    IndexError
  | AttributeError string
  | KeyError string
  | UnboundLocalError string
  | BackendError string
  | ProtocolViolation

fun is_NameError :: "exn \<Rightarrow> bool" where
  "is_NameError (UnboundLocalError v) = True"
| "is_NameError e = False"

text \<open>config.py: the three settings the nodes read.\<close>

record config =
  MAX_ITERATIONS :: int
  SEARCH_RESULT_LIMIT :: int
  VERBOSE :: bool

definition default_config :: config where
  "default_config = \<lparr> MAX_ITERATIONS = 2, SEARCH_RESULT_LIMIT = 800, VERBOSE = True \<rparr>"

text \<open>
  A tool call is the dictionary \<open>{"name": .., "id": .., "args": {..}}\<close>. The arguments come from
  the generation backend as a raw dictionary, so every key may be absent.
\<close>

record reflection_args =
  missing :: "string option"
  superfluous :: "string option"

record tool_args =
  answer :: "string option"
  reflection :: "reflection_args option"
  search_queries :: "string list option"
  references :: "string list option"

record tool_call =
  name :: string
  call_id :: string
  args :: tool_args

record ai_message =
  content :: string
  tool_calls :: "tool_call list"

text \<open>
  The fixed system text of a prompt template is abbreviated to its name. A \<open>ToolMessage\<close>
  carries the dictionary \<open>query_results\<close> (which the source renders with \<open>json.dumps\<close>) as an
  insertion-ordered association list, and the \<open>tool_call_id\<close>.
\<close>

datatype prompt = initial_prompt | revision_prompt

datatype message =
    SystemMessage prompt
  | HumanMessage string
  | AIMessage ai_message
  | ToolMessage "(string \<times> string) list" string

fun is_ToolMessage :: "message \<Rightarrow> bool" where
  "is_ToolMessage (ToolMessage d i) = True"
| "is_ToolMessage m = False"

text \<open>models.py: the two schemas and their declared (all required) fields.\<close>

datatype tool = AnswerQuestion | ReviseAnswer

definition AnswerQuestion_fields :: "string list" where
  "AnswerQuestion_fields = [''answer'', ''reflection'', ''search_queries'']"

text \<open>\<open>class ReviseAnswer(AnswerQuestion)\<close>: the inherited fields, then \<open>references\<close>.\<close>

definition ReviseAnswer_fields :: "string list" where
  "ReviseAnswer_fields = AnswerQuestion_fields @ [''references'']"

fun fields :: "tool \<Rightarrow> string list" where
  "fields AnswerQuestion = AnswerQuestion_fields"
| "fields ReviseAnswer = ReviseAnswer_fields"

section \<open>External collaborators\<close>

text \<open>
  The search backend \<open>search_tool.run\<close>: it takes the state of the outside world and a query,
  and either raises an \<open>Exception\<close> (\<open>Inl\<close> of its text \<open>str(e)\<close>) or returns a result; the world
  moves on either way, so two calls with one query may differ.

  The generation backend, bound to one tool with \<open>tool_choice\<close>: it takes the formatted prompt
  and returns an \<open>AIMessage\<close> or raises. Every call of one run has a longer history than the
  one before, so a function of the request describes any backend.
\<close>

type_synonym 's search_tool = "'s \<Rightarrow> string \<Rightarrow> (string + string) \<times> 's"

type_synonym llm = "tool \<Rightarrow> message list \<Rightarrow> exn + ai_message"

section \<open>Python primitives\<close>

text \<open>\<open>d[k] = v\<close> on an insertion-ordered dictionary: an existing key keeps its position.\<close>

fun dict_set :: "('k \<times> 'v) list \<Rightarrow> 'k \<Rightarrow> 'v \<Rightarrow> ('k \<times> 'v) list" where
  "dict_set [] k v = [(k, v)]"
| "dict_set ((k', v') # d) k v = (if k' = k then (k, v) # d else (k', v') # dict_set d k v)"

text \<open>\<open>xs[:n]\<close>: a negative bound counts from the end.\<close>

definition slice_to :: "int \<Rightarrow> 'a list \<Rightarrow> 'a list" where
  "slice_to n xs = (if 0 \<le> n then take (nat n) xs else take (length xs - nat (- n)) xs)"

section \<open>nodes.py\<close>

subsection \<open>execute_tools\<close>

text \<open>
  The inner loop \<open>for i, query in enumerate(search_queries, 1)\<close> with its \<open>try\<close>/\<open>except\<close>:
  it threads the dictionary \<open>query_results\<close> and the world.
\<close>

fun search_loop ::
  "config \<Rightarrow> 's search_tool \<Rightarrow> 's \<Rightarrow> (string \<times> string) list \<Rightarrow> string list
   \<Rightarrow> (string \<times> string) list \<times> 's" where
  "search_loop cfg search s query_results [] = (query_results, s)"
| "search_loop cfg search s query_results (query # rest) =
     (case search s query of
        (Inr result, s') \<Rightarrow>
          search_loop cfg search s'
            (dict_set query_results query (slice_to (SEARCH_RESULT_LIMIT cfg) result)) rest
      | (Inl e, s') \<Rightarrow>
          search_loop cfg search s'
            (dict_set query_results query (''Search unavailable: '' @ e)) rest)"

definition handled :: "tool_call \<Rightarrow> bool" where
  "handled tool_call = (name tool_call \<in> set [''AnswerQuestion'', ''ReviseAnswer''])"

text \<open>\<open>tool_call["args"].get("search_queries", [])\<close>\<close>

definition issued_queries :: "tool_call \<Rightarrow> string list" where
  "issued_queries tool_call =
     (case search_queries (args tool_call) of None \<Rightarrow> [] | Some qs \<Rightarrow> qs)"

text \<open>
  The outer loop \<open>for tool_call in last_ai_message.tool_calls\<close>: it threads \<open>tool_messages\<close>,
  the binding of the local variable \<open>search_queries\<close> (\<open>None\<close> while unassigned) and the world.
\<close>

fun tool_call_loop ::
  "config \<Rightarrow> 's search_tool \<Rightarrow> 's \<Rightarrow> message list \<Rightarrow> string list option \<Rightarrow> tool_call list
   \<Rightarrow> message list \<times> string list option \<times> 's" where
  "tool_call_loop cfg search s tool_messages sq [] = (tool_messages, sq, s)"
| "tool_call_loop cfg search s tool_messages sq (tool_call # rest) =
     (if handled tool_call then
        (let search_queries' = issued_queries tool_call;
             (query_results, s') = search_loop cfg search s [] search_queries'
         in tool_call_loop cfg search s'
              (tool_messages @ [ToolMessage query_results (call_id tool_call)])
              (Some search_queries') rest)
      else tool_call_loop cfg search s tool_messages sq rest)"

definition execute_tools ::
  "config \<Rightarrow> 's search_tool \<Rightarrow> 's \<Rightarrow> message list \<Rightarrow> (exn + message list) \<times> 's" where
  "execute_tools cfg search s state =
     (if state = [] then (Inl IndexError, s)
      else case last state of
        AIMessage last_ai_message \<Rightarrow>
          (case tool_call_loop cfg search s [] None (tool_calls last_ai_message) of
             (tool_messages, sq, s') \<Rightarrow>
               if VERBOSE cfg \<and> sq = None
               then (Inl (UnboundLocalError ''search_queries''), s')
               else (Inr tool_messages, s'))
      | _ \<Rightarrow> (Inl (AttributeError ''tool_calls''), s))"

subsection \<open>The chains and the two generation nodes\<close>

text \<open>
  \<open>prompt | llm.bind_tools(tools=[T], tool_choice=T)\<close>: the template puts its system text in
  front of the messages given for the placeholder, and the bound backend answers.
\<close>

definition format_prompt :: "prompt \<Rightarrow> message list \<Rightarrow> message list" where
  "format_prompt p messages = SystemMessage p # messages"

definition initial_chain :: "llm \<Rightarrow> message list \<Rightarrow> exn + ai_message" where
  "initial_chain llm messages = llm AnswerQuestion (format_prompt initial_prompt messages)"

definition revisor_chain :: "llm \<Rightarrow> message list \<Rightarrow> exn + ai_message" where
  "revisor_chain llm messages = llm ReviseAnswer (format_prompt revision_prompt messages)"

text \<open>
  The progress lines of the verbose mode print nothing the model keeps, but they subscript
  the raw arguments: \<open>args['answer']\<close>, \<open>args['reflection']['missing']\<close> and
  \<open>args['search_queries']\<close> raise \<open>KeyError\<close> on an absent key. The result is the exception
  raised, if any.
\<close>

definition log_initial :: "tool_args \<Rightarrow> exn option" where
  "log_initial a =
     (case answer a of None \<Rightarrow> Some (KeyError ''answer'') | Some _ \<Rightarrow>
      (case reflection a of None \<Rightarrow> Some (KeyError ''reflection'') | Some r \<Rightarrow>
       (case missing r of None \<Rightarrow> Some (KeyError ''missing'') | Some _ \<Rightarrow>
        (case search_queries a of None \<Rightarrow> Some (KeyError ''search_queries'')
         | Some _ \<Rightarrow> None))))"

definition log_revised :: "tool_args \<Rightarrow> exn option" where
  "log_revised a = (case answer a of None \<Rightarrow> Some (KeyError ''answer'') | Some _ \<Rightarrow> None)"

definition generate_initial_response :: "config \<Rightarrow> llm \<Rightarrow> message list \<Rightarrow> exn + ai_message" where
  "generate_initial_response cfg llm messages =
     (case initial_chain llm messages of
        Inl e \<Rightarrow> Inl e
      | Inr response \<Rightarrow>
          if VERBOSE cfg \<and> tool_calls response \<noteq> [] then
            (case log_initial (args (hd (tool_calls response))) of
               Some e \<Rightarrow> Inl e | None \<Rightarrow> Inr response)
          else Inr response)"

definition revise_answer :: "config \<Rightarrow> llm \<Rightarrow> message list \<Rightarrow> exn + ai_message" where
  "revise_answer cfg llm state =
     (case revisor_chain llm state of
        Inl e \<Rightarrow> Inl e
      | Inr response \<Rightarrow>
          if VERBOSE cfg \<and> tool_calls response \<noteq> [] then
            (case log_revised (args (hd (tool_calls response))) of
               Some e \<Rightarrow> Inl e | None \<Rightarrow> Inr response)
          else Inr response)"

subsection \<open>should_continue\<close>

definition END :: string where
  "END = ''__end__''"

definition tool_count :: "message list \<Rightarrow> int" where
  "tool_count state = int (length (filter is_ToolMessage state))"

definition should_continue :: "config \<Rightarrow> message list \<Rightarrow> string" where
  "should_continue cfg state =
     (if tool_count state \<ge> MAX_ITERATIONS cfg then END else ''execute_tools'')"

section \<open>graph.py\<close>

text \<open>
  The compiled \<open>MessageGraph\<close>: three nodes, the fixed edges \<open>generate \<rightarrow> execute_tools\<close> and
  \<open>execute_tools \<rightarrow> revise\<close>, the conditional edge after \<open>revise\<close>, entry point \<open>generate\<close>.
  A node's messages are appended to the state. The runtime executes a bounded number of
  node steps; \<open>None\<close> is a run that the bound cut off.
\<close>

datatype node = Generate | ExecuteTools | Revise

definition run_node ::
  "config \<Rightarrow> llm \<Rightarrow> 's search_tool \<Rightarrow> node \<Rightarrow> 's \<Rightarrow> message list \<Rightarrow> (exn + message list) \<times> 's" where
  "run_node cfg llm search nd s state =
     (case nd of
        Generate \<Rightarrow>
          (case generate_initial_response cfg llm state of
             Inl e \<Rightarrow> (Inl e, s) | Inr m \<Rightarrow> (Inr [AIMessage m], s))
      | ExecuteTools \<Rightarrow> execute_tools cfg search s state
      | Revise \<Rightarrow>
          (case revise_answer cfg llm state of
             Inl e \<Rightarrow> (Inl e, s) | Inr m \<Rightarrow> (Inr [AIMessage m], s)))"

fun next_node :: "config \<Rightarrow> node \<Rightarrow> message list \<Rightarrow> node option" where
  "next_node cfg Generate state = Some ExecuteTools"
| "next_node cfg ExecuteTools state = Some Revise"
| "next_node cfg Revise state =
     (if should_continue cfg state = END then None else Some ExecuteTools)"

fun run_graph ::
  "config \<Rightarrow> llm \<Rightarrow> 's search_tool \<Rightarrow> nat \<Rightarrow> node \<Rightarrow> 's \<Rightarrow> message list
   \<Rightarrow> (exn + message list) option" where
  "run_graph cfg llm search 0 nd s state = None"
| "run_graph cfg llm search (Suc steps) nd s state =
     (case run_node cfg llm search nd s state of
        (Inl e, s') \<Rightarrow> Some (Inl e)
      | (Inr new_messages, s') \<Rightarrow>
          (let state' = state @ new_messages in
           case next_node cfg nd state' of
             None \<Rightarrow> Some (Inr state')
           | Some nd' \<Rightarrow> run_graph cfg llm search steps nd' s' state'))"

definition invoke ::
  "config \<Rightarrow> llm \<Rightarrow> 's search_tool \<Rightarrow> nat \<Rightarrow> 's \<Rightarrow> message list \<Rightarrow> (exn + message list) option" where
  "invoke cfg llm search steps s initial_messages =
     run_graph cfg llm search steps Generate s initial_messages"

section \<open>Vocabulary of the properties\<close>

text \<open>
  What the backend answers when the queries are searched one after the other from world \<open>s\<close>,
  and the world after all of them.
\<close>

fun outcomes :: "'s search_tool \<Rightarrow> 's \<Rightarrow> string list \<Rightarrow> (string + string) list" where
  "outcomes search s [] = []"
| "outcomes search s (q # qs) = fst (search s q) # outcomes search (snd (search s q)) qs"

fun world_after :: "'s search_tool \<Rightarrow> 's \<Rightarrow> string list \<Rightarrow> 's" where
  "world_after search s [] = s"
| "world_after search s (q # qs) = world_after search (snd (search s q)) qs"

text \<open>The elements of a list in the order of their first occurrence.\<close>

fun first_occurrences :: "'a list \<Rightarrow> 'a list" where
  "first_occurrences [] = []"
| "first_occurrences (x # xs) = x # filter (\<lambda>y. y \<noteq> x) (first_occurrences xs)"

text \<open>The dictionary entry the inner loop stores for one outcome.\<close>

definition entry :: "config \<Rightarrow> string + string \<Rightarrow> string" where
  "entry cfg outcome =
     (case outcome of
        Inr result \<Rightarrow> slice_to (SEARCH_RESULT_LIMIT cfg) result
      | Inl e \<Rightarrow> ''Search unavailable: '' @ e)"

text \<open>
  The progress lines of the verbose mode raise nothing on the answer \<open>m\<close> to a request for
  the tool \<open>t\<close>: logging is off, or the answer has no tool call, or its first tool call has the
  keys they read.
\<close>

definition progress_lines_pass :: "config \<Rightarrow> tool \<Rightarrow> ai_message \<Rightarrow> bool" where
  "progress_lines_pass cfg t m =
     (VERBOSE cfg \<and> tool_calls m \<noteq> [] \<longrightarrow>
        (case t of
           AnswerQuestion \<Rightarrow> log_initial (args (hd (tool_calls m))) = None
         | ReviseAnswer \<Rightarrow> log_revised (args (hd (tool_calls m))) = None))"

text \<open>
  A backend that answers every request with a message carrying exactly one handled tool call
  (what \<open>tool_choice\<close> asks of it), on which the progress lines raise nothing.
\<close>

definition cooperative :: "config \<Rightarrow> llm \<Rightarrow> bool" where
  "cooperative cfg llm =
     (\<forall>t messages. \<exists>m. llm t messages = Inr m
        \<and> length (filter handled (tool_calls m)) = 1
        \<and> progress_lines_pass cfg t m)"

text \<open>
  The handled tool calls of a message in order, each with the world in which its batch of
  searches starts: the world after every query of the handled calls before it.
\<close>

fun batches :: "'s search_tool \<Rightarrow> 's \<Rightarrow> tool_call list \<Rightarrow> ('s \<times> tool_call) list" where
  "batches search s [] = []"
| "batches search s (tc # tcs) =
     (if handled tc then (s, tc) # batches search (world_after search s (issued_queries tc)) tcs
      else batches search s tcs)"

subsection \<open>Concrete collaborators for the scenarios\<close>

definition fixed_llm :: "ai_message \<Rightarrow> llm" where
  "fixed_llm m = (\<lambda>t messages. Inr m)"

definition snippet_search :: "unit search_tool" where
  "snippet_search = (\<lambda>s query. (Inr ''snippet-1'', s))"

text \<open>A backend that fails on the query \<open>b\<close> and answers every other one.\<close>

definition flaky_search :: "unit search_tool" where
  "flaky_search = (\<lambda>s query. (if query = ''b'' then Inl ''timeout'' else Inr ''snippet-1'', s))"

text \<open>
  A backend that plays a script: the world is the list of the outcomes still to come, and each
  search takes the next one whatever the query.
\<close>

definition scripted_search :: "(string + string) list search_tool" where
  "scripted_search =
     (\<lambda>script query. case script of
        [] \<Rightarrow> (Inl ''no answer'', [])
      | outcome # rest \<Rightarrow> (outcome, rest))"

text \<open>A backend that fails on every query, with the given cause.\<close>

definition failing_search :: "string \<Rightarrow> unit search_tool" where
  "failing_search cause = (\<lambda>s query. (Inl cause, s))"

definition record_with :: "string \<Rightarrow> string list \<Rightarrow> string list option \<Rightarrow> ai_message" where
  "record_with a qs refs =
     \<lparr> content = [],
       tool_calls = [\<lparr> name = ''AnswerQuestion'', call_id = ''call_1'',
         args = \<lparr> answer = Some a,
                  reflection = Some \<lparr> missing = Some ''data'', superfluous = Some ''none'' \<rparr>,
                  search_queries = Some qs, references = refs \<rparr> \<rparr>] \<rparr>"

text \<open>
  The messages \<open>rest\<close> that follow \<open>state\<close> are grounded when every AI message among them is
  the backend's answer to the revision request made of everything before it.
\<close>

definition grounded :: "llm \<Rightarrow> message list \<Rightarrow> message list \<Rightarrow> bool" where
  "grounded llm state rest =
     (\<forall>pre m post. rest = pre @ AIMessage m # post \<longrightarrow>
        llm ReviseAnswer (SystemMessage revision_prompt # state @ pre) = Inr m)"


section \<open>Dictionaries and the search loop\<close>

lemma map_of_dict_set: "map_of (dict_set d k v) = (map_of d)(k \<mapsto> v)"
  by (induction d k v rule: dict_set.induct) auto

lemma keys_dict_set:
  "map fst (dict_set d k v) = (if k \<in> set (map fst d) then map fst d else map fst d @ [k])"
  by (induction d k v rule: dict_set.induct) auto

lemma search_loop_step:
  "search_loop cfg search s d (q # qs) =
     search_loop cfg search (snd (search s q)) (dict_set d q (entry cfg (fst (search s q)))) qs"
  by (cases "search s q") (auto simp: entry_def split: sum.splits)

lemma search_loop_world: "snd (search_loop cfg search s d qs) = world_after search s qs"
  by (induction qs arbitrary: s d)
    (simp_all only: search_loop_step world_after.simps search_loop.simps snd_conv)

lemma search_loop_keys:
  "map fst (fst (search_loop cfg search s d qs)) =
     map fst d @ filter (\<lambda>q. q \<notin> set (map fst d)) (first_occurrences qs)"
proof (induction qs arbitrary: s d)
  case Nil
  then show ?case by simp
next
  case (Cons q qs)
  have eq: "filter (\<lambda>x. x \<notin> set (map fst d) \<and> x \<noteq> q) (first_occurrences qs)
        = filter (\<lambda>x. x \<notin> set (map fst d)) (first_occurrences qs)" if "q \<in> set (map fst d)"
    using that by (intro filter_cong) auto
  show ?case
    unfolding search_loop_step Cons.IH keys_dict_set
    using eq by (auto simp: conj_commute)
qed

lemma first_occurrences_set: "set (first_occurrences xs) = set xs"
  by (induction xs) auto

lemma first_occurrences_id: "distinct xs \<Longrightarrow> first_occurrences xs = xs"
  by (induction xs) (auto simp: first_occurrences_set intro!: filter_True)

lemma search_loop_untouched:
  "q \<notin> set qs \<Longrightarrow> map_of (fst (search_loop cfg search s d qs)) q = map_of d q"
proof (induction qs arbitrary: s d)
  case Nil
  then show ?case by simp
next
  case (Cons a qs)
  then show ?case
    unfolding search_loop_step by (simp add: map_of_dict_set)
qed

lemma search_loop_lookup:
  "i < length qs \<Longrightarrow> qs ! i \<notin> set (drop (Suc i) qs) \<Longrightarrow>
     map_of (fst (search_loop cfg search s d qs)) (qs ! i) = Some (entry cfg (outcomes search s qs ! i))"
proof (induction qs arbitrary: s d i)
  case Nil
  then show ?case by simp
next
  case (Cons a qs)
  show ?case
  proof (cases i)
    case 0
    with Cons.prems show ?thesis
      unfolding search_loop_step by (simp add: search_loop_untouched map_of_dict_set)
  next
    case (Suc j)
    with Cons.prems Cons.IH[of j] show ?thesis
      unfolding search_loop_step by simp
  qed
qed

lemma slice_to_nonneg: "0 \<le> n \<Longrightarrow> slice_to n xs = take (nat n) xs"
  by (simp add: slice_to_def)

subsection \<open>The loop over the tool calls\<close>

lemma tool_call_loop_step:
  "tool_call_loop cfg search s tms sq (tc # rest) =
     (if handled tc then
        tool_call_loop cfg search (world_after search s (issued_queries tc))
          (tms @ [ToolMessage (fst (search_loop cfg search s [] (issued_queries tc))) (call_id tc)])
          (Some (issued_queries tc)) rest
      else tool_call_loop cfg search s tms sq rest)"
  by (simp add: Let_def split_beta search_loop_world)

lemma tool_call_loop_none:
  "\<forall>tc \<in> set tcs. \<not> handled tc \<Longrightarrow> tool_call_loop cfg search s tms sq tcs = (tms, sq, s)"
  by (induction tcs) (simp_all only: tool_call_loop_step tool_call_loop.simps, auto)

lemma tool_call_loop_binding:
  "fst (snd (tool_call_loop cfg search s tms sq tcs)) = None
     \<longleftrightarrow> sq = None \<and> (\<forall>tc \<in> set tcs. \<not> handled tc)"
  by (induction tcs arbitrary: s tms sq) (simp_all only: tool_call_loop_step tool_call_loop.simps, auto)

lemma tool_call_loop_messages:
  "\<exists>new. fst (tool_call_loop cfg search s tms sq tcs) = tms @ new
     \<and> list_all2 (\<lambda>tm tc. \<exists>d. tm = ToolMessage d (call_id tc)
           \<and> map fst d = first_occurrences (issued_queries tc)) new (filter handled tcs)"
proof (induction tcs arbitrary: s tms sq)
  case Nil
  then show ?case by simp
next
  case (Cons tc tcs)
  show ?case
  proof (cases "handled tc")
    case True
    let ?tm = "ToolMessage (fst (search_loop cfg search s [] (issued_queries tc))) (call_id tc)"
    from Cons.IH[of "world_after search s (issued_queries tc)" "tms @ [?tm]" "Some (issued_queries tc)"]
    obtain new where new: "fst (tool_call_loop cfg search (world_after search s (issued_queries tc))
          (tms @ [?tm]) (Some (issued_queries tc)) tcs) = (tms @ [?tm]) @ new"
      "list_all2 (\<lambda>tm tc. \<exists>d. tm = ToolMessage d (call_id tc)
           \<and> map fst d = first_occurrences (issued_queries tc)) new (filter handled tcs)"
      by blast
    have "map fst (fst (search_loop cfg search s [] (issued_queries tc))) = first_occurrences (issued_queries tc)"
      by (simp add: search_loop_keys)
    with new True show ?thesis
      unfolding tool_call_loop_step
      by (intro exI[of _ "?tm # new"]) simp
  next
    case False
    with Cons.IH[of s tms sq] show ?thesis
      unfolding tool_call_loop_step by simp
  qed
qed

section \<open>The research step\<close>

lemma execute_tools_ai:
  "state \<noteq> [] \<Longrightarrow> last state = AIMessage m \<Longrightarrow>
   execute_tools cfg search s state =
     (case tool_call_loop cfg search s [] None (tool_calls m) of
        (tms, sq, s') \<Rightarrow>
          if VERBOSE cfg \<and> sq = None then (Inl (UnboundLocalError ''search_queries''), s')
          else (Inr tms, s'))"
  by (simp add: execute_tools_def)

lemma execute_tools_returns:
  assumes "state \<noteq> []" "last state = AIMessage m"
    and "(\<exists>tc \<in> set (tool_calls m). handled tc) \<or> \<not> VERBOSE cfg"
  shows "execute_tools cfg search s state =
           (Inr (fst (tool_call_loop cfg search s [] None (tool_calls m))),
            snd (snd (tool_call_loop cfg search s [] None (tool_calls m))))"
proof -
  obtain tms sq s' where t: "tool_call_loop cfg search s [] None (tool_calls m) = (tms, sq, s')"
    by (cases "tool_call_loop cfg search s [] None (tool_calls m)") auto
  have "VERBOSE cfg \<Longrightarrow> sq \<noteq> None"
    using assms(3) tool_call_loop_binding[of cfg search s "[]" None "tool_calls m"] t by auto
  then show ?thesis
    using t by (auto simp: execute_tools_ai[OF assms(1,2)])
qed

lemma world_after_append:
  "world_after search s (xs @ ys) = world_after search (world_after search s xs) ys"
  by (induction xs arbitrary: s) simp_all

lemma tool_call_loop_batches:
  "tool_call_loop cfg search s tms sq tcs =
     (tms @ map (\<lambda>(w, tc). ToolMessage (fst (search_loop cfg search w [] (issued_queries tc)))
                            (call_id tc)) (batches search s tcs),
      (if filter handled tcs = [] then sq else Some (issued_queries (last (filter handled tcs)))),
      world_after search s (concat (map issued_queries (filter handled tcs))))"
proof (induction tcs arbitrary: s tms sq)
  case Nil
  then show ?case by simp
next
  case (Cons tc tcs)
  show ?case
    unfolding tool_call_loop_step Cons.IH
    by (simp add: world_after_append)
qed

lemma execute_tools_records:
  assumes "state \<noteq> []" and "last state = AIMessage m"
    and "(\<exists>tc \<in> set (tool_calls m). handled tc) \<or> \<not> VERBOSE cfg"
  shows "execute_tools cfg search s state =
           (Inr (map (\<lambda>(w, tc). ToolMessage (fst (search_loop cfg search w [] (issued_queries tc)))
                                  (call_id tc)) (batches search s (tool_calls m))),
            world_after search s (concat (map issued_queries (filter handled (tool_calls m)))))"
  using assms(3)
  unfolding execute_tools_returns[OF assms] tool_call_loop_batches by simp

lemma records_satisfy:
  assumes "\<And>w tc. P (ToolMessage (fst (search_loop cfg search w [] (issued_queries tc))) (call_id tc)) (w, tc)"
  shows "list_all2 P
           (map (\<lambda>(w, tc). ToolMessage (fst (search_loop cfg search w [] (issued_queries tc)))
                            (call_id tc)) bs) bs"
  using assms by (induction bs) auto

lemmas research_defs =
  execute_tools_def record_with_def handled_def issued_queries_def default_config_def slice_to_def
  snippet_search_def flaky_search_def failing_search_def scripted_search_def

text \<open>
  In the statements below a query of a batch is taken at an index \<open>i\<close> that is its last
  occurrence in the batch, \<open>qs ! i \<notin> set (drop (Suc i) qs)\<close>: the dictionary is keyed by the
  query text, so a query searched again later in the batch has its entry replaced.
\<close>

subsection \<open>Successful entries\<close>

text \<open>
  C7 (as amended): the research step returns one ToolMessage for each handled tool call, and
  in its dictionary the entry of every query whose last search in the batch succeeded is the
  backend's result cut to its first \<open>SEARCH_RESULT_LIMIT\<close> characters (a non-negative limit,
  800 in \<open>config.py\<close>), so it is never longer than the limit.
\<close>

theorem last_successful_search_truncated:
  assumes "state \<noteq> []" and "last state = AIMessage m"
    and "(\<exists>tc \<in> set (tool_calls m). handled tc) \<or> \<not> VERBOSE cfg"
    and "0 \<le> SEARCH_RESULT_LIMIT cfg"
  shows "\<exists>tms s'. execute_tools cfg search s state = (Inr tms, s')
       \<and> list_all2 (\<lambda>tm (w, tc). \<exists>d. tm = ToolMessage d (call_id tc)
             \<and> (\<forall>i result. i < length (issued_queries tc)
                     \<and> issued_queries tc ! i \<notin> set (drop (Suc i) (issued_queries tc))
                     \<and> outcomes search w (issued_queries tc) ! i = Inr result
                   \<longrightarrow> map_of d (issued_queries tc ! i)
                         = Some (take (nat (SEARCH_RESULT_LIMIT cfg)) result)
                       \<and> int (length (take (nat (SEARCH_RESULT_LIMIT cfg)) result))
                           \<le> SEARCH_RESULT_LIMIT cfg))
           tms (batches search s (tool_calls m))
       \<and> SEARCH_RESULT_LIMIT default_config = 800"
proof -
  have "list_all2 (\<lambda>tm (w, tc). \<exists>d. tm = ToolMessage d (call_id tc)
             \<and> (\<forall>i result. i < length (issued_queries tc)
                     \<and> issued_queries tc ! i \<notin> set (drop (Suc i) (issued_queries tc))
                     \<and> outcomes search w (issued_queries tc) ! i = Inr result
                   \<longrightarrow> map_of d (issued_queries tc ! i)
                         = Some (take (nat (SEARCH_RESULT_LIMIT cfg)) result)
                       \<and> int (length (take (nat (SEARCH_RESULT_LIMIT cfg)) result))
                           \<le> SEARCH_RESULT_LIMIT cfg))
          (map (\<lambda>(w, tc). ToolMessage (fst (search_loop cfg search w [] (issued_queries tc)))
                            (call_id tc)) (batches search s (tool_calls m)))
          (batches search s (tool_calls m))"
    using assms(4)
    by (intro records_satisfy) (auto simp: search_loop_lookup entry_def slice_to_nonneg)
  then show ?thesis
    unfolding execute_tools_records[OF assms(1-3)] by (simp add: default_config_def)
qed

theorem last_successful_search_truncated_witness:
  "execute_tools (default_config\<lparr>SEARCH_RESULT_LIMIT := 4\<rparr>) flaky_search ()
     [HumanMessage ''What is X?'', AIMessage (record_with ''X is Y'' [''a'', ''b''] None)]
   = (Inr [ToolMessage [(''a'', ''snip''), (''b'', ''Search unavailable: timeout'')] ''call_1''],
      ())"
proof -
  let ?m = "record_with ''X is Y'' [''a'', ''b''] None"
  let ?state = "[HumanMessage ''What is X?'', AIMessage ?m]"
  have h1: "?state \<noteq> []" by simp
  have h2: "last ?state = AIMessage ?m" by simp
  have h3: "(\<exists>tc \<in> set (tool_calls ?m). handled tc)
              \<or> \<not> VERBOSE (default_config\<lparr>SEARCH_RESULT_LIMIT := 4\<rparr>)"
    by (simp add: record_with_def handled_def)
  have h4: "0 \<le> SEARCH_RESULT_LIMIT (default_config\<lparr>SEARCH_RESULT_LIMIT := 4\<rparr>)" by simp
  show ?thesis
    using last_successful_search_truncated[OF h1 h2 h3 h4, of flaky_search "()"]
    by (simp add: research_defs)
qed

text \<open>
  C7 as stated fails when a query is searched twice, first with success and then with a
  failure: the entry of the query is the failure marker, here 820 characters long, and not
  the truncated result of the successful search.
\<close>

theorem overwritten_success_counterexample:
  "execute_tools default_config scripted_search
     [Inr ''ok-result'', Inl (replicate 800 CHR ''x'')]
     [HumanMessage ''What is X?'', AIMessage (record_with ''X is Y'' [''a'', ''a''] None)]
   = (Inr [ToolMessage [(''a'', ''Search unavailable: '' @ replicate 800 CHR ''x'')] ''call_1''],
      [])
   \<and> outcomes scripted_search [Inr ''ok-result'', Inl (replicate 800 CHR ''x'')] [''a'', ''a''] ! 0
       = Inr ''ok-result''
   \<and> ''Search unavailable: '' @ replicate 800 CHR ''x'' \<noteq> take 800 ''ok-result''
   \<and> length (''Search unavailable: '' @ replicate 800 CHR ''x'') = 820"
  by (simp add: research_defs)

subsection \<open>Failed entries\<close>

text \<open>
  C10 (as amended): in the dictionary of each ToolMessage the research step returns, the entry
  of every query whose last search in the batch failed is \<open>"Search unavailable: "\<close> followed by
  the exception text, whole: its length is 20 plus that of the text, which exceeds the limit
  of the successful entries as soon as the text is long enough.
\<close>

theorem last_failed_search_marker:
  assumes "state \<noteq> []" and "last state = AIMessage m"
    and "(\<exists>tc \<in> set (tool_calls m). handled tc) \<or> \<not> VERBOSE cfg"
  shows "\<exists>tms s'. execute_tools cfg search s state = (Inr tms, s')
       \<and> list_all2 (\<lambda>tm (w, tc). \<exists>d. tm = ToolMessage d (call_id tc)
             \<and> (\<forall>i e. i < length (issued_queries tc)
                     \<and> issued_queries tc ! i \<notin> set (drop (Suc i) (issued_queries tc))
                     \<and> outcomes search w (issued_queries tc) ! i = Inl e
                   \<longrightarrow> map_of d (issued_queries tc ! i) = Some (''Search unavailable: '' @ e)
                       \<and> length (''Search unavailable: '' @ e) = 20 + length e
                       \<and> (SEARCH_RESULT_LIMIT cfg < 20 + int (length e) \<longrightarrow>
                            SEARCH_RESULT_LIMIT cfg < int (length (''Search unavailable: '' @ e)))))
           tms (batches search s (tool_calls m))"
proof -
  have "list_all2 (\<lambda>tm (w, tc). \<exists>d. tm = ToolMessage d (call_id tc)
             \<and> (\<forall>i e. i < length (issued_queries tc)
                     \<and> issued_queries tc ! i \<notin> set (drop (Suc i) (issued_queries tc))
                     \<and> outcomes search w (issued_queries tc) ! i = Inl e
                   \<longrightarrow> map_of d (issued_queries tc ! i) = Some (''Search unavailable: '' @ e)
                       \<and> length (''Search unavailable: '' @ e) = 20 + length e
                       \<and> (SEARCH_RESULT_LIMIT cfg < 20 + int (length e) \<longrightarrow>
                            SEARCH_RESULT_LIMIT cfg < int (length (''Search unavailable: '' @ e)))))
          (map (\<lambda>(w, tc). ToolMessage (fst (search_loop cfg search w [] (issued_queries tc)))
                            (call_id tc)) (batches search s (tool_calls m)))
          (batches search s (tool_calls m))"
    by (intro records_satisfy) (auto simp: search_loop_lookup entry_def)
  then show ?thesis
    unfolding execute_tools_records[OF assms(1-3)] by simp
qed

theorem last_failed_search_marker_witness:
  "execute_tools default_config (failing_search (replicate 800 CHR ''x'')) ()
     [HumanMessage ''What is X?'', AIMessage (record_with ''X is Y'' [''a''] None)]
   = (Inr [ToolMessage [(''a'', ''Search unavailable: '' @ replicate 800 CHR ''x'')] ''call_1''],
      ())
   \<and> SEARCH_RESULT_LIMIT default_config
       < int (length (''Search unavailable: '' @ replicate 800 CHR ''x''))"
proof -
  let ?m = "record_with ''X is Y'' [''a''] None"
  let ?state = "[HumanMessage ''What is X?'', AIMessage ?m]"
  have h1: "?state \<noteq> []" by simp
  have h2: "last ?state = AIMessage ?m" by simp
  have h3: "(\<exists>tc \<in> set (tool_calls ?m). handled tc) \<or> \<not> VERBOSE default_config"
    by (simp add: record_with_def handled_def)
  show ?thesis
    using last_failed_search_marker[OF h1 h2 h3, of "failing_search (replicate 800 CHR ''x'')" "()"]
    by (simp add: research_defs)
qed

text \<open>
  C10 as stated fails when a query fails and is searched again with success: no marker is
  stored for the failed search, the entry of the query is the later result.
\<close>

theorem overwritten_failure_counterexample:
  "execute_tools default_config scripted_search [Inl ''timeout'', Inr ''ok-result'']
     [HumanMessage ''What is X?'', AIMessage (record_with ''X is Y'' [''a'', ''a''] None)]
   = (Inr [ToolMessage [(''a'', ''ok-result'')] ''call_1''], [])
   \<and> outcomes scripted_search [Inl ''timeout'', Inr ''ok-result''] [''a'', ''a''] ! 0
       = Inl ''timeout''
   \<and> map_of [(''a'', ''ok-result'')] ''a'' \<noteq> Some (''Search unavailable: '' @ ''timeout'')"
  by (simp add: research_defs)

subsection \<open>Failures of the search backend stay inside the research step\<close>

text \<open>
  C4 (as amended): on an AI message with a handled tool call (or with verbose logging off),
  whatever the search backend does, the research step raises nothing and returns one
  ToolMessage for each handled tool call; the backend has been asked every query of every
  batch in order (the world is the one after all of them); and the entry of every query,
  taken at its last search in the batch, is decided by the outcome of that search alone: the
  marker with the cause when it failed, the truncated result when it succeeded.
\<close>

theorem search_failures_absorbed:
  assumes "state \<noteq> []" and "last state = AIMessage m"
    and "(\<exists>tc \<in> set (tool_calls m). handled tc) \<or> \<not> VERBOSE cfg"
  shows "\<exists>tms. execute_tools cfg search s state =
           (Inr tms,
            world_after search s (concat (map issued_queries (filter handled (tool_calls m)))))
       \<and> list_all2 (\<lambda>tm (w, tc). \<exists>d. tm = ToolMessage d (call_id tc)
             \<and> (\<forall>i < length (issued_queries tc).
                   issued_queries tc ! i \<notin> set (drop (Suc i) (issued_queries tc)) \<longrightarrow>
                   map_of d (issued_queries tc ! i) =
                     Some (case outcomes search w (issued_queries tc) ! i of
                             Inl e \<Rightarrow> ''Search unavailable: '' @ e
                           | Inr result \<Rightarrow> slice_to (SEARCH_RESULT_LIMIT cfg) result)))
           tms (batches search s (tool_calls m))"
proof -
  have "list_all2 (\<lambda>tm (w, tc). \<exists>d. tm = ToolMessage d (call_id tc)
             \<and> (\<forall>i < length (issued_queries tc).
                   issued_queries tc ! i \<notin> set (drop (Suc i) (issued_queries tc)) \<longrightarrow>
                   map_of d (issued_queries tc ! i) =
                     Some (case outcomes search w (issued_queries tc) ! i of
                             Inl e \<Rightarrow> ''Search unavailable: '' @ e
                           | Inr result \<Rightarrow> slice_to (SEARCH_RESULT_LIMIT cfg) result)))
          (map (\<lambda>(w, tc). ToolMessage (fst (search_loop cfg search w [] (issued_queries tc)))
                            (call_id tc)) (batches search s (tool_calls m)))
          (batches search s (tool_calls m))"
    by (intro records_satisfy) (simp add: search_loop_lookup entry_def)
  then show ?thesis
    unfolding execute_tools_records[OF assms(1-3)] by simp
qed

theorem search_failures_absorbed_witness:
  "execute_tools default_config flaky_search ()
     [HumanMessage ''What is X?'', AIMessage (record_with ''X is Y'' [''a'', ''b'', ''c''] None)]
   = (Inr [ToolMessage [(''a'', ''snippet-1''), (''b'', ''Search unavailable: timeout''),
                        (''c'', ''snippet-1'')] ''call_1''], ())"
proof -
  let ?m = "record_with ''X is Y'' [''a'', ''b'', ''c''] None"
  let ?state = "[HumanMessage ''What is X?'', AIMessage ?m]"
  have h1: "?state \<noteq> []" by simp
  have h2: "last ?state = AIMessage ?m" by simp
  have h3: "(\<exists>tc \<in> set (tool_calls ?m). handled tc) \<or> \<not> VERBOSE default_config"
    by (simp add: record_with_def handled_def)
  show ?thesis
    using search_failures_absorbed[OF h1 h2 h3, of flaky_search "()"]
    by (simp add: research_defs)
qed

text \<open>
  C4 as stated fails when a failed query is searched again later in the batch with success:
  its entry is the later result, not an error marker.
\<close>

theorem failed_then_repeated_counterexample:
  "execute_tools default_config scripted_search [Inl ''timeout'', Inr ''first'', Inr ''second'']
     [HumanMessage ''What is X?'', AIMessage (record_with ''X is Y'' [''a'', ''b'', ''a''] None)]
   = (Inr [ToolMessage [(''a'', ''second''), (''b'', ''first'')] ''call_1''], [])
   \<and> outcomes scripted_search [Inl ''timeout'', Inr ''first'', Inr ''second'']
         [''a'', ''b'', ''a''] ! 0 = Inl ''timeout''
   \<and> ''second'' \<noteq> ''Search unavailable: '' @ ''timeout''"
  by (simp add: research_defs)

subsection \<open>One entry per distinct query\<close>

text \<open>
  C3 (as amended): the research step answers each handled tool call of the last AI message
  with one ToolMessage, whose dictionary has one entry for each distinct query of that call,
  in the order of the queries' first occurrence. When the queries are distinct the keys are
  the queries, in their order; no query gives the empty dictionary; and the entry of a query
  holds the outcome of its last search in the batch.
\<close>

theorem results_keyed_by_distinct_query:
  assumes "state \<noteq> []" and "last state = AIMessage m"
    and "(\<exists>tc \<in> set (tool_calls m). handled tc) \<or> \<not> VERBOSE cfg"
  shows "\<exists>tms s'. execute_tools cfg search s state = (Inr tms, s')
       \<and> list_all2 (\<lambda>tm (w, tc). \<exists>d. tm = ToolMessage d (call_id tc)
             \<and> map fst d = first_occurrences (issued_queries tc)
             \<and> (distinct (issued_queries tc) \<longrightarrow> map fst d = issued_queries tc)
             \<and> (issued_queries tc = [] \<longrightarrow> d = [])
             \<and> (\<forall>i < length (issued_queries tc).
                   issued_queries tc ! i \<notin> set (drop (Suc i) (issued_queries tc)) \<longrightarrow>
                   map_of d (issued_queries tc ! i) =
                     Some (case outcomes search w (issued_queries tc) ! i of
                             Inl e \<Rightarrow> ''Search unavailable: '' @ e
                           | Inr result \<Rightarrow> slice_to (SEARCH_RESULT_LIMIT cfg) result)))
           tms (batches search s (tool_calls m))"
proof -
  have "list_all2 (\<lambda>tm (w, tc). \<exists>d. tm = ToolMessage d (call_id tc)
             \<and> map fst d = first_occurrences (issued_queries tc)
             \<and> (distinct (issued_queries tc) \<longrightarrow> map fst d = issued_queries tc)
             \<and> (issued_queries tc = [] \<longrightarrow> d = [])
             \<and> (\<forall>i < length (issued_queries tc).
                   issued_queries tc ! i \<notin> set (drop (Suc i) (issued_queries tc)) \<longrightarrow>
                   map_of d (issued_queries tc ! i) =
                     Some (case outcomes search w (issued_queries tc) ! i of
                             Inl e \<Rightarrow> ''Search unavailable: '' @ e
                           | Inr result \<Rightarrow> slice_to (SEARCH_RESULT_LIMIT cfg) result)))
          (map (\<lambda>(w, tc). ToolMessage (fst (search_loop cfg search w [] (issued_queries tc)))
                            (call_id tc)) (batches search s (tool_calls m)))
          (batches search s (tool_calls m))"
    by (intro records_satisfy)
      (simp add: search_loop_lookup entry_def search_loop_keys first_occurrences_id)
  then show ?thesis
    unfolding execute_tools_records[OF assms(1-3)] by simp
qed

theorem results_keyed_by_distinct_query_witness:
  "execute_tools default_config scripted_search [Inr ''first'', Inr ''second'', Inr ''third'']
     [HumanMessage ''What is X?'', AIMessage (record_with ''X is Y'' [''a'', ''b'', ''a''] None)]
   = (Inr [ToolMessage [(''a'', ''third''), (''b'', ''second'')] ''call_1''], [])"
proof -
  let ?m = "record_with ''X is Y'' [''a'', ''b'', ''a''] None"
  let ?state = "[HumanMessage ''What is X?'', AIMessage ?m]"
  have h1: "?state \<noteq> []" by simp
  have h2: "last ?state = AIMessage ?m" by simp
  have h3: "(\<exists>tc \<in> set (tool_calls ?m). handled tc) \<or> \<not> VERBOSE default_config"
    by (simp add: record_with_def handled_def)
  show ?thesis
    using results_keyed_by_distinct_query[OF h1 h2 h3, of scripted_search
        "[Inr ''first'', Inr ''second'', Inr ''third'']"]
    by (simp add: research_defs)
qed

text \<open>
  C3 as stated fails on a duplicated query: the dictionary is keyed by the query text, so the
  batch \<open>a, a\<close> gives one entry, not two.
\<close>

theorem duplicated_query_counterexample:
  "execute_tools default_config snippet_search ()
     [HumanMessage ''What is X?'', AIMessage (record_with ''X is Y'' [''a'', ''a''] None)]
   = (Inr [ToolMessage [(''a'', ''snippet-1'')] ''call_1''], ())
   \<and> length [(''a'', ''snippet-1'')] \<noteq> length [''a'', ''a'']"
  by (simp add: execute_tools_def record_with_def handled_def issued_queries_def
        snippet_search_def default_config_def slice_to_def)

subsection \<open>The unassigned loop variable of the verbose mode\<close>

text \<open>
  C9: with verbose logging on, when the last message is an AI message none of whose tool
  calls is named AnswerQuestion or ReviseAnswer (an empty \<open>tool_calls\<close> for one), the step
  does not return the empty list: its last progress line reads \<open>search_queries\<close>, which no
  iteration assigned, and raises \<open>UnboundLocalError\<close>, a \<open>NameError\<close>. No search was made.
\<close>

theorem verbose_unbound_search_queries:
  assumes "VERBOSE cfg" and "state \<noteq> []" and "last state = AIMessage m"
    and "\<forall>tc \<in> set (tool_calls m). \<not> handled tc"
  shows "execute_tools cfg search s state = (Inl (UnboundLocalError ''search_queries''), s)
       \<and> is_NameError (UnboundLocalError ''search_queries'')
       \<and> fst (execute_tools cfg search s state) \<noteq> Inr []"
  using assms by (simp add: execute_tools_ai tool_call_loop_none)

theorem verbose_unbound_search_queries_witness:
  "execute_tools default_config snippet_search ()
     [HumanMessage ''What is X?'', AIMessage \<lparr> content = ''X is Y'', tool_calls = [] \<rparr>]
   = (Inl (UnboundLocalError ''search_queries''), ())"
proof -
  let ?m = "\<lparr> content = ''X is Y'', tool_calls = [] \<rparr>"
  let ?state = "[HumanMessage ''What is X?'', AIMessage ?m]"
  have h1: "VERBOSE default_config" by (simp add: default_config_def)
  have h2: "?state \<noteq> []" by simp
  have h3: "last ?state = AIMessage ?m" by simp
  have h4: "\<forall>tc \<in> set (tool_calls ?m). \<not> handled tc" by simp
  show ?thesis
    using verbose_unbound_search_queries[OF h1 h2 h3 h4, of snippet_search "()"] by simp
qed

subsection \<open>The last Turn is not a reasoning record\<close>

text \<open>
  C5 (as amended): the research step never fails with \<open>ProtocolViolation\<close>. On a history whose
  last Turn is not an AI message it fails with \<open>AttributeError\<close> (\<open>IndexError\<close> on the empty
  history); on an AI message with no handled tool call, verbose logging off, it returns the
  empty list of ToolMessages.
\<close>

theorem no_protocol_violation:
  "fst (execute_tools cfg search s state) \<noteq> Inl ProtocolViolation
   \<and> (state \<noteq> [] \<and> (\<forall>m. last state \<noteq> AIMessage m) \<longrightarrow>
        execute_tools cfg search s state = (Inl (AttributeError ''tool_calls''), s))
   \<and> (state = [] \<longrightarrow> execute_tools cfg search s state = (Inl IndexError, s))
   \<and> (\<forall>m. state \<noteq> [] \<and> last state = AIMessage m \<and> (\<forall>tc \<in> set (tool_calls m). \<not> handled tc)
          \<and> \<not> VERBOSE cfg \<longrightarrow> execute_tools cfg search s state = (Inr [], s))"
proof -
  have "fst (execute_tools cfg search s state) \<noteq> Inl ProtocolViolation"
    by (auto simp: execute_tools_def split: message.splits prod.splits)
  moreover have "state \<noteq> [] \<and> (\<forall>m. last state \<noteq> AIMessage m) \<longrightarrow>
        execute_tools cfg search s state = (Inl (AttributeError ''tool_calls''), s)"
    by (auto simp: execute_tools_def split: message.splits)
  moreover have "state = [] \<longrightarrow> execute_tools cfg search s state = (Inl IndexError, s)"
    by (simp add: execute_tools_def)
  moreover have "\<forall>m. state \<noteq> [] \<and> last state = AIMessage m \<and> (\<forall>tc \<in> set (tool_calls m). \<not> handled tc)
          \<and> \<not> VERBOSE cfg \<longrightarrow> execute_tools cfg search s state = (Inr [], s)"
    by (simp add: execute_tools_ai tool_call_loop_none)
  ultimately show ?thesis by blast
qed

theorem no_protocol_violation_witness:
  "execute_tools (default_config\<lparr>VERBOSE := False\<rparr>) snippet_search ()
     [HumanMessage ''What is X?'', AIMessage \<lparr> content = ''X is Y'', tool_calls = [] \<rparr>]
   = (Inr [], ())
   \<and> execute_tools default_config snippet_search ()
        [HumanMessage ''What is X?'', ToolMessage [] ''call_1'']
      = (Inl (AttributeError ''tool_calls''), ())"
  using no_protocol_violation[of "default_config\<lparr>VERBOSE := False\<rparr>" snippet_search "()"
      "[HumanMessage ''What is X?'', AIMessage \<lparr> content = ''X is Y'', tool_calls = [] \<rparr>]"]
    no_protocol_violation[of default_config snippet_search "()"
      "[HumanMessage ''What is X?'', ToolMessage [] ''call_1'']"]
  by simp

text \<open>
  C5 as stated fails on a history that ends with the question: the fault is
  \<open>AttributeError\<close>, not \<open>ProtocolViolation\<close>.
\<close>

theorem protocol_violation_counterexample:
  "execute_tools default_config snippet_search () [HumanMessage ''What is X?'']
     = (Inl (AttributeError ''tool_calls''), ())
   \<and> AttributeError ''tool_calls'' \<noteq> ProtocolViolation"
  by (simp add: execute_tools_def)

section \<open>The generation nodes and the continuation check\<close>

lemma should_continue_END: "should_continue cfg state = END \<longleftrightarrow> MAX_ITERATIONS cfg \<le> tool_count state"
  by (simp add: should_continue_def END_def)

lemma revise_answer_cases:
  "revise_answer cfg llm state =
     (case llm ReviseAnswer (SystemMessage revision_prompt # state) of
        Inl e \<Rightarrow> Inl e
      | Inr m \<Rightarrow> if VERBOSE cfg \<and> tool_calls m \<noteq> [] \<and> answer (args (hd (tool_calls m))) = None
                 then Inl (KeyError ''answer'') else Inr m)"
  by (auto simp: revise_answer_def revisor_chain_def format_prompt_def log_revised_def
      split: sum.splits option.splits)

lemma revise_answer_Inr:
  "revise_answer cfg llm state = Inr m \<Longrightarrow>
     llm ReviseAnswer (SystemMessage revision_prompt # state) = Inr m"
  by (auto simp: revise_answer_cases split: sum.splits if_splits)

lemma generate_Inr:
  "generate_initial_response cfg llm messages = Inr m \<Longrightarrow>
     llm AnswerQuestion (SystemMessage initial_prompt # messages) = Inr m"
  by (auto simp: generate_initial_response_def initial_chain_def format_prompt_def
      split: sum.splits if_splits option.splits)

lemma generate_accepts:
  "llm AnswerQuestion (SystemMessage initial_prompt # messages) = Inr m \<Longrightarrow>
   (VERBOSE cfg \<and> tool_calls m \<noteq> [] \<longrightarrow> log_initial (args (hd (tool_calls m))) = None) \<Longrightarrow>
   generate_initial_response cfg llm messages = Inr m"
  by (auto simp: generate_initial_response_def initial_chain_def format_prompt_def)

lemma revise_accepts:
  "llm ReviseAnswer (SystemMessage revision_prompt # state) = Inr m \<Longrightarrow>
   (VERBOSE cfg \<and> tool_calls m \<noteq> [] \<longrightarrow> answer (args (hd (tool_calls m))) \<noteq> None) \<Longrightarrow>
   revise_answer cfg llm state = Inr m"
  by (auto simp: revise_answer_cases)

lemma execute_tools_only_tool_messages:
  assumes "execute_tools cfg search s state = (Inr tms, s')"
  shows "list_all is_ToolMessage tms"
proof -
  from assms obtain m where m: "state \<noteq> []" "last state = AIMessage m"
    by (auto simp: execute_tools_def split: if_splits message.splits)
  obtain new where new: "fst (tool_call_loop cfg search s [] None (tool_calls m)) = [] @ new"
     "list_all2 (\<lambda>tm tc. \<exists>d. tm = ToolMessage d (call_id tc)
           \<and> map fst d = first_occurrences (issued_queries tc)) new (filter handled (tool_calls m))"
    using tool_call_loop_messages[of cfg search s "[]" None "tool_calls m"] by blast
  have "list_all is_ToolMessage new"
    using new(2) by (induction rule: list_all2_induct) auto
  moreover have "tms = new"
    using assms new(1) by (auto simp: execute_tools_ai[OF m] split: prod.splits if_splits)
  ultimately show ?thesis by simp
qed

lemma execute_tools_one_call:
  assumes "state \<noteq> []" "last state = AIMessage m" "length (filter handled (tool_calls m)) = 1"
  shows "\<exists>d i s'. execute_tools cfg search s state = (Inr [ToolMessage d i], s')"
proof -
  have ex: "\<exists>tc \<in> set (tool_calls m). handled tc"
  proof -
    from assms(3) have "filter handled (tool_calls m) \<noteq> []" by auto
    then show ?thesis by (auto simp: filter_empty_conv)
  qed
  obtain new where new: "fst (tool_call_loop cfg search s [] None (tool_calls m)) = [] @ new"
     "list_all2 (\<lambda>tm tc. \<exists>d. tm = ToolMessage d (call_id tc)
           \<and> map fst d = first_occurrences (issued_queries tc)) new (filter handled (tool_calls m))"
    using tool_call_loop_messages[of cfg search s "[]" None "tool_calls m"] by blast
  from new(2) assms(3) have len: "length new = 1"
    by (simp add: list_all2_lengthD)
  then obtain x where x: "new = [x]"
    by (cases new) auto
  from new(2) x obtain d i where "x = ToolMessage d i"
    by (cases "filter handled (tool_calls m)") auto
  with x new(1) execute_tools_returns[OF assms(1,2), of cfg search s] ex show ?thesis
    by auto
qed

text \<open>One round from the research node.\<close>

lemma run_graph_round:
  assumes "execute_tools cfg search s state = (Inr tms, s')"
    and "revise_answer cfg llm (state @ tms) = Inr m"
  shows "run_graph cfg llm search (Suc (Suc steps)) ExecuteTools s state =
           (if MAX_ITERATIONS cfg \<le> tool_count (state @ tms @ [AIMessage m])
            then Some (Inr (state @ tms @ [AIMessage m]))
            else run_graph cfg llm search steps ExecuteTools s' (state @ tms @ [AIMessage m]))"
  using assms by (simp add: run_node_def should_continue_END)

lemma cooperativeD:
  assumes "cooperative cfg llm"
  obtains m where "llm t messages = Inr m" "length (filter handled (tool_calls m)) = 1"
    "progress_lines_pass cfg t m"
  using assms unfolding cooperative_def by blast

lemma cooperative_generate:
  assumes "cooperative cfg llm"
  obtains m where "generate_initial_response cfg llm messages = Inr m"
    "llm AnswerQuestion (SystemMessage initial_prompt # messages) = Inr m"
    "length (filter handled (tool_calls m)) = 1"
proof -
  obtain m where m: "llm AnswerQuestion (SystemMessage initial_prompt # messages) = Inr m"
     "length (filter handled (tool_calls m)) = 1" "progress_lines_pass cfg AnswerQuestion m"
    using cooperativeD[OF assms] by blast
  then have "generate_initial_response cfg llm messages = Inr m"
    by (simp add: generate_accepts progress_lines_pass_def)
  with m that show ?thesis by blast
qed

lemma cooperative_revise:
  assumes "cooperative cfg llm"
  obtains m where "revise_answer cfg llm state = Inr m"
    "llm ReviseAnswer (SystemMessage revision_prompt # state) = Inr m"
    "length (filter handled (tool_calls m)) = 1"
proof -
  obtain m where m: "llm ReviseAnswer (SystemMessage revision_prompt # state) = Inr m"
     "length (filter handled (tool_calls m)) = 1" "progress_lines_pass cfg ReviseAnswer m"
    using cooperativeD[OF assms] by blast
  from m(3) have "VERBOSE cfg \<and> tool_calls m \<noteq> [] \<longrightarrow> answer (args (hd (tool_calls m))) \<noteq> None"
    by (auto simp: progress_lines_pass_def log_revised_def split: option.splits)
  with m have "revise_answer cfg llm state = Inr m"
    by (simp add: revise_accepts)
  with m that show ?thesis by blast
qed

lemma rounds_until_limit:
  assumes coop: "cooperative cfg llm"
  shows "state \<noteq> [] \<Longrightarrow> last state = AIMessage m \<Longrightarrow> length (filter handled (tool_calls m)) = 1 \<Longrightarrow>
         n = nat (MAX_ITERATIONS cfg - (tool_count state + 1)) \<Longrightarrow> 2 * Suc n \<le> steps \<Longrightarrow>
         \<exists>h. run_graph cfg llm search steps ExecuteTools s state = Some (Inr h)
            \<and> tool_count h = max (tool_count state + 1) (MAX_ITERATIONS cfg)"
proof (induction n arbitrary: state m steps s)
  case 0
  obtain d i s' where ex: "execute_tools cfg search s state = (Inr [ToolMessage d i], s')"
    using execute_tools_one_call[OF "0.prems"(1-3), of cfg search s] by blast
  obtain m' where rev: "revise_answer cfg llm (state @ [ToolMessage d i]) = Inr m'"
    using cooperative_revise[OF coop] by blast
  from "0.prems"(5) obtain k where k: "steps = Suc (Suc k)"
    by (cases steps; cases "steps - 1") auto
  have cnt: "tool_count (state @ [ToolMessage d i] @ [AIMessage m']) = tool_count state + 1"
    by (simp add: tool_count_def)
  from "0.prems"(4) have "MAX_ITERATIONS cfg \<le> tool_count state + 1" by simp
  then show ?case
    unfolding k run_graph_round[OF ex rev] using cnt by simp
next
  case (Suc n)
  obtain d i s' where ex: "execute_tools cfg search s state = (Inr [ToolMessage d i], s')"
    using execute_tools_one_call[OF Suc.prems(1-3), of cfg search s] by blast
  obtain m' where rev: "revise_answer cfg llm (state @ [ToolMessage d i]) = Inr m'"
    and one: "length (filter handled (tool_calls m')) = 1"
    using cooperative_revise[OF coop] by blast
  let ?st = "state @ [ToolMessage d i] @ [AIMessage m']"
  from Suc.prems(5) obtain k where k: "steps = Suc (Suc k)" "2 * Suc n \<le> k"
    by (cases steps; cases "steps - 1") auto
  have cnt: "tool_count ?st = tool_count state + 1"
    by (simp add: tool_count_def)
  from Suc.prems(4) have lt: "\<not> MAX_ITERATIONS cfg \<le> tool_count state + 1" by simp
  have n: "n = nat (MAX_ITERATIONS cfg - (tool_count ?st + 1))"
    using Suc.prems(4) cnt by simp
  have "\<exists>h. run_graph cfg llm search k ExecuteTools s' ?st = Some (Inr h)
            \<and> tool_count h = max (tool_count ?st + 1) (MAX_ITERATIONS cfg)"
    by (rule Suc.IH[OF _ _ one n k(2)]) simp_all
  then show ?case
    unfolding k run_graph_round[OF ex rev] using cnt lt by auto
qed

section \<open>Runs of the graph\<close>

lemma split_in_append:
  "xs @ ys = pre @ x # post \<Longrightarrow>
     (\<exists>p. xs = pre @ x # p) \<or> (\<exists>pre'. pre = xs @ pre' \<and> ys = pre' @ x # post)"
  by (auto simp: append_eq_append_conv2 append_eq_Cons_conv)

lemma grounded_append:
  assumes "grounded llm state new" and "grounded llm (state @ new) rest"
  shows "grounded llm state (new @ rest)"
  unfolding grounded_def
proof (intro allI impI)
  fix pre m post
  assume eq: "new @ rest = pre @ AIMessage m # post"
  from split_in_append[OF eq] show "llm ReviseAnswer (SystemMessage revision_prompt # state @ pre) = Inr m"
  proof
    assume "\<exists>p. new = pre @ AIMessage m # p"
    with assms(1) show ?thesis unfolding grounded_def by blast
  next
    assume "\<exists>pre'. pre = new @ pre' \<and> rest = pre' @ AIMessage m # post"
    then obtain pre' where "pre = new @ pre'" "rest = pre' @ AIMessage m # post" by blast
    with assms(2) show ?thesis unfolding grounded_def by simp
  qed
qed

lemma grounded_tools: "list_all is_ToolMessage new \<Longrightarrow> grounded llm state new"
  unfolding grounded_def by (auto simp: list_all_iff)

lemma grounded_single:
  "llm ReviseAnswer (SystemMessage revision_prompt # state) = Inr m \<Longrightarrow>
     grounded llm state [AIMessage m]"
  unfolding grounded_def by (auto simp: append_eq_Cons_conv Cons_eq_append_conv)

lemma run_node_grounded:
  assumes "run_node cfg llm search nd s state = (Inr new, s')" and "nd \<noteq> Generate"
  shows "grounded llm state new"
proof (cases nd)
  case Generate
  with assms(2) show ?thesis by simp
next
  case ExecuteTools
  with assms(1) have "execute_tools cfg search s state = (Inr new, s')"
    by (simp add: run_node_def)
  then show ?thesis
    by (intro grounded_tools execute_tools_only_tool_messages)
next
  case Revise
  with assms(1) obtain m where "revise_answer cfg llm state = Inr m" "new = [AIMessage m]"
    by (auto simp: run_node_def split: sum.splits)
  then show ?thesis
    by (auto intro: grounded_single revise_answer_Inr)
qed

lemma next_node_not_Generate: "next_node cfg nd state = Some nd' \<Longrightarrow> nd' \<noteq> Generate"
  by (cases nd) (auto split: if_splits)

lemma run_graph_grounded:
  "run_graph cfg llm search steps nd s state = Some (Inr h) \<Longrightarrow> nd \<noteq> Generate \<Longrightarrow>
     \<exists>rest. h = state @ rest \<and> grounded llm state rest"
proof (induction steps arbitrary: nd s state)
  case 0
  then show ?case by simp
next
  case (Suc steps)
  from Suc.prems(1) obtain new s' where node: "run_node cfg llm search nd s state = (Inr new, s')"
    by (cases "run_node cfg llm search nd s state"; cases "fst (run_node cfg llm search nd s state)")
      auto
  have g: "grounded llm state new"
    using run_node_grounded[OF node Suc.prems(2)] .
  show ?case
  proof (cases "next_node cfg nd (state @ new)")
    case None
    with Suc.prems(1) node have "h = state @ new" by simp
    with g show ?thesis by blast
  next
    case (Some nd')
    with Suc.prems(1) node
    have run: "run_graph cfg llm search steps nd' s' (state @ new) = Some (Inr h)" by simp
    from Suc.IH[OF run next_node_not_Generate[OF Some]]
    obtain rest where rest: "h = (state @ new) @ rest" "grounded llm (state @ new) rest" by blast
    from grounded_append[OF g rest(2)] rest(1) show ?thesis by auto
  qed
qed

lemma invoke_history:
  assumes "invoke cfg llm search steps s init = Some (Inr h)"
  shows "\<exists>m1 rest. h = init @ AIMessage m1 # rest
           \<and> llm AnswerQuestion (SystemMessage initial_prompt # init) = Inr m1
           \<and> grounded llm (init @ [AIMessage m1]) rest"
proof -
  from assms obtain k where k: "steps = Suc k"
    by (cases steps) (auto simp: invoke_def)
  from assms obtain m1 where gen: "generate_initial_response cfg llm init = Inr m1"
    unfolding invoke_def k by (auto simp: run_node_def split: sum.splits)
  with assms have run: "run_graph cfg llm search k ExecuteTools s (init @ [AIMessage m1]) = Some (Inr h)"
    unfolding invoke_def k by (simp add: run_node_def)
  from run_graph_grounded[OF run] obtain rest where
    "h = (init @ [AIMessage m1]) @ rest" "grounded llm (init @ [AIMessage m1]) rest" by blast
  with generate_Inr[OF gen] show ?thesis by auto
qed

lemmas scenario_defs =
  invoke_def run_node_def generate_initial_response_def
  initial_chain_def revisor_chain_def revise_answer_def fixed_llm_def record_with_def
  log_initial_def log_revised_def default_config_def execute_tools_def handled_def
  issued_queries_def snippet_search_def slice_to_def should_continue_def tool_count_def END_def
  format_prompt_def

lemma cooperative_fixed_llm: "cooperative cfg (fixed_llm (record_with a qs refs))"
  by (simp add: cooperative_def progress_lines_pass_def fixed_llm_def record_with_def
      handled_def log_initial_def log_revised_def split: tool.splits)

lemma run_zero_limit:
  assumes "MAX_ITERATIONS cfg = 0"
  shows "invoke cfg llm search (Suc (Suc (Suc k))) s [HumanMessage question] =
     (case generate_initial_response cfg llm [HumanMessage question] of
        Inl e \<Rightarrow> Some (Inl e)
      | Inr m1 \<Rightarrow>
          (case execute_tools cfg search s [HumanMessage question, AIMessage m1] of
             (Inl e, s') \<Rightarrow> Some (Inl e)
           | (Inr tms, s') \<Rightarrow>
               (case revise_answer cfg llm ([HumanMessage question, AIMessage m1] @ tms) of
                  Inl e \<Rightarrow> Some (Inl e)
                | Inr m2 \<Rightarrow>
                    Some (Inr ([HumanMessage question, AIMessage m1] @ tms @ [AIMessage m2])))))"
  using assms
  by (auto simp: invoke_def run_node_def should_continue_END tool_count_def
      split: sum.splits prod.splits)

lemma run_graph_generate:
  "generate_initial_response cfg llm state = Inr m \<Longrightarrow>
     run_graph cfg llm search (Suc steps) Generate s state =
       run_graph cfg llm search steps ExecuteTools s (state @ [AIMessage m])"
  by (simp add: run_node_def)

subsection \<open>How many research rounds a run makes\<close>

text \<open>
  C1 (as amended): when the backend answers every request with a message carrying exactly one
  handled tool call on which the progress lines raise nothing, and the runtime allows at
  least \<open>1 + 2 * max 1 MAX_ITERATIONS\<close> node steps, a run on a question finishes with exactly
  \<open>max 1 MAX_ITERATIONS\<close> ToolMessages in its history: the first research round always runs.
  The continuation check, made only after a revision, ends the run exactly when the number
  of ToolMessages has reached \<open>MAX_ITERATIONS\<close>.
\<close>

theorem tool_messages_after_run:
  assumes "cooperative cfg llm" and "1 + 2 * max 1 (nat (MAX_ITERATIONS cfg)) \<le> steps"
  shows "(\<exists>h. invoke cfg llm search steps s [HumanMessage question] = Some (Inr h)
            \<and> tool_count h = max 1 (MAX_ITERATIONS cfg))
       \<and> (\<forall>state. should_continue cfg state = END \<longleftrightarrow> MAX_ITERATIONS cfg \<le> tool_count state)"
proof
  obtain m where gen: "generate_initial_response cfg llm [HumanMessage question] = Inr m"
    and one: "length (filter handled (tool_calls m)) = 1"
    using cooperative_generate[OF assms(1)] by blast
  from assms(2) obtain k where k: "steps = Suc k" "2 * max 1 (nat (MAX_ITERATIONS cfg)) \<le> k"
    by (cases steps) auto
  let ?st = "[HumanMessage question] @ [AIMessage m]"
  have cnt: "tool_count ?st = 0" by (simp add: tool_count_def)
  have n: "nat (MAX_ITERATIONS cfg) - 1 = nat (MAX_ITERATIONS cfg - (tool_count ?st + 1))"
    using cnt by simp
  have fuel: "2 * Suc (nat (MAX_ITERATIONS cfg) - 1) \<le> k"
    using k(2) by (simp add: max_def split: if_splits)
  have "\<exists>h. run_graph cfg llm search k ExecuteTools s ?st = Some (Inr h)
            \<and> tool_count h = max (tool_count ?st + 1) (MAX_ITERATIONS cfg)"
    by (rule rounds_until_limit[OF assms(1) _ _ one n fuel]) simp_all
  moreover have "invoke cfg llm search steps s [HumanMessage question] =
      run_graph cfg llm search k ExecuteTools s ?st"
    unfolding invoke_def k by (rule run_graph_generate[OF gen])
  ultimately show "\<exists>h. invoke cfg llm search steps s [HumanMessage question] = Some (Inr h)
            \<and> tool_count h = max 1 (MAX_ITERATIONS cfg)"
    using cnt by simp
next
  show "\<forall>state. should_continue cfg state = END \<longleftrightarrow> MAX_ITERATIONS cfg \<le> tool_count state"
    by (simp add: should_continue_END)
qed

theorem tool_messages_after_run_witness:
  "\<exists>h. invoke default_config (fixed_llm (record_with ''X is Y'' [''q1'', ''q2''] None))
          snippet_search 5 () [HumanMessage ''What is X?''] = Some (Inr h)
      \<and> tool_count h = 2"
proof -
  have h1: "cooperative default_config (fixed_llm (record_with ''X is Y'' [''q1'', ''q2''] None))"
    by (rule cooperative_fixed_llm)
  have h2: "1 + 2 * max 1 (nat (MAX_ITERATIONS default_config)) \<le> 5"
    by (simp add: default_config_def)
  show ?thesis
    using tool_messages_after_run[OF h1 h2, of snippet_search "()" "''What is X?''"]
    by (simp add: default_config_def)
qed

text \<open>
  C1 as stated fails for \<open>MAX_ITERATIONS = 0\<close>: the run still makes one research round, so the
  final history holds one ToolMessage, more than the limit.
\<close>

theorem zero_iterations_counterexample:
  "invoke (default_config\<lparr>MAX_ITERATIONS := 0\<rparr>) (fixed_llm (record_with ''X is Y'' [''q1''] None))
     snippet_search 3 () [HumanMessage ''What is X?'']
   = Some (Inr [HumanMessage ''What is X?'', AIMessage (record_with ''X is Y'' [''q1''] None),
        ToolMessage [(''q1'', ''snippet-1'')] ''call_1'',
        AIMessage (record_with ''X is Y'' [''q1''] None)])
   \<and> tool_count [HumanMessage ''What is X?'', AIMessage (record_with ''X is Y'' [''q1''] None),
        ToolMessage [(''q1'', ''snippet-1'')] ''call_1'',
        AIMessage (record_with ''X is Y'' [''q1''] None)] = 1
   \<and> \<not> (1 \<le> MAX_ITERATIONS (default_config\<lparr>MAX_ITERATIONS := 0\<rparr>))"
  by (simp add: scenario_defs numeral_3_eq_3)

subsection \<open>A limit of zero\<close>

text \<open>
  C2 (as amended): when \<open>MAX_ITERATIONS\<close> is 0 and the runtime allows at least 3 node steps, a
  run on a question makes the reflection step, then exactly one research step and exactly
  one revision, and stops: it ends with the exception of the first node that raises, or with
  the history made of the question, the initial record, the messages returned by the
  research step and the revised record. When the backend answers every request with a
  message carrying exactly one handled tool call on which the progress lines raise nothing,
  the run finishes with three Turns beyond the question: the initial record, one ToolMessage
  and the revised record, each record being the backend's answer to the history before it.
\<close>

theorem zero_limit_runs_one_round:
  assumes "MAX_ITERATIONS cfg = 0" and "3 \<le> steps"
  shows "invoke cfg llm search steps s [HumanMessage question] =
     (case generate_initial_response cfg llm [HumanMessage question] of
        Inl e \<Rightarrow> Some (Inl e)
      | Inr m1 \<Rightarrow>
          (case execute_tools cfg search s [HumanMessage question, AIMessage m1] of
             (Inl e, s') \<Rightarrow> Some (Inl e)
           | (Inr tms, s') \<Rightarrow>
               (case revise_answer cfg llm ([HumanMessage question, AIMessage m1] @ tms) of
                  Inl e \<Rightarrow> Some (Inl e)
                | Inr m2 \<Rightarrow>
                    Some (Inr ([HumanMessage question, AIMessage m1] @ tms @ [AIMessage m2])))))
   \<and> (cooperative cfg llm \<longrightarrow>
        (\<exists>m1 d i m2.
           invoke cfg llm search steps s [HumanMessage question]
             = Some (Inr [HumanMessage question, AIMessage m1, ToolMessage d i, AIMessage m2])
         \<and> llm AnswerQuestion [SystemMessage initial_prompt, HumanMessage question] = Inr m1
         \<and> llm ReviseAnswer [SystemMessage revision_prompt, HumanMessage question, AIMessage m1,
                             ToolMessage d i] = Inr m2))"
proof (intro conjI impI)
  from assms(2) obtain k where k: "steps = Suc (Suc (Suc k))"
    by (cases steps; cases "steps - 1"; cases "steps - 2") auto
  show "invoke cfg llm search steps s [HumanMessage question] =
     (case generate_initial_response cfg llm [HumanMessage question] of
        Inl e \<Rightarrow> Some (Inl e)
      | Inr m1 \<Rightarrow>
          (case execute_tools cfg search s [HumanMessage question, AIMessage m1] of
             (Inl e, s') \<Rightarrow> Some (Inl e)
           | (Inr tms, s') \<Rightarrow>
               (case revise_answer cfg llm ([HumanMessage question, AIMessage m1] @ tms) of
                  Inl e \<Rightarrow> Some (Inl e)
                | Inr m2 \<Rightarrow>
                    Some (Inr ([HumanMessage question, AIMessage m1] @ tms @ [AIMessage m2])))))"
    unfolding k by (rule run_zero_limit[OF assms(1)])
next
  assume coop: "cooperative cfg llm"
  obtain m1 where gen: "generate_initial_response cfg llm [HumanMessage question] = Inr m1"
    and l1: "llm AnswerQuestion (SystemMessage initial_prompt # [HumanMessage question]) = Inr m1"
    and one: "length (filter handled (tool_calls m1)) = 1"
    using cooperative_generate[OF coop] by blast
  let ?st = "[HumanMessage question] @ [AIMessage m1]"
  have "?st \<noteq> []" "last ?st = AIMessage m1" by simp_all
  from execute_tools_one_call[OF this one, of cfg search s]
  obtain d i s' where ex: "execute_tools cfg search s ?st = (Inr [ToolMessage d i], s')" by blast
  obtain m2 where rev: "revise_answer cfg llm (?st @ [ToolMessage d i]) = Inr m2"
    and l2: "llm ReviseAnswer (SystemMessage revision_prompt # ?st @ [ToolMessage d i]) = Inr m2"
    using cooperative_revise[OF coop] by blast
  from assms(2) obtain k where k: "steps = Suc (Suc (Suc k))"
    by (cases steps; cases "steps - 1"; cases "steps - 2") auto
  have "invoke cfg llm search steps s [HumanMessage question] =
      run_graph cfg llm search (Suc (Suc k)) ExecuteTools s ?st"
    unfolding invoke_def k by (rule run_graph_generate[OF gen])
  also have "\<dots> = Some (Inr (?st @ [ToolMessage d i] @ [AIMessage m2]))"
    unfolding run_graph_round[OF ex rev] using assms(1) by (simp add: tool_count_def)
  finally show "\<exists>m1 d i m2.
           invoke cfg llm search steps s [HumanMessage question]
             = Some (Inr [HumanMessage question, AIMessage m1, ToolMessage d i, AIMessage m2])
         \<and> llm AnswerQuestion [SystemMessage initial_prompt, HumanMessage question] = Inr m1
         \<and> llm ReviseAnswer [SystemMessage revision_prompt, HumanMessage question, AIMessage m1,
                             ToolMessage d i] = Inr m2"
    using l1 l2 by auto
qed

theorem zero_limit_runs_one_round_witness:
  "\<exists>m1 d i m2.
     invoke (default_config\<lparr>MAX_ITERATIONS := 0\<rparr>) (fixed_llm (record_with ''X is Y'' [''q1''] None))
       snippet_search 3 () [HumanMessage ''What is X?'']
     = Some (Inr [HumanMessage ''What is X?'', AIMessage m1, ToolMessage d i, AIMessage m2])"
proof -
  have h0: "cooperative (default_config\<lparr>MAX_ITERATIONS := 0\<rparr>)
              (fixed_llm (record_with ''X is Y'' [''q1''] None))"
    by (rule cooperative_fixed_llm)
  have h1: "MAX_ITERATIONS (default_config\<lparr>MAX_ITERATIONS := 0\<rparr>) = 0" by simp
  have h2: "(3::nat) \<le> 3" by simp
  show ?thesis
    using zero_limit_runs_one_round[OF h1 h2, of "fixed_llm (record_with ''X is Y'' [''q1''] None)"
        snippet_search "()" "''What is X?''"] h0
    by blast
qed

text \<open>
  C2 as stated fails: with \<open>MAX_ITERATIONS = 0\<close> the final history is not the question and one
  record; it has four Turns and the third is a ToolMessage.
\<close>

theorem reflection_only_counterexample:
  "invoke (default_config\<lparr>MAX_ITERATIONS := 0\<rparr>) (fixed_llm (record_with ''X is Y'' [''q1''] None))
     snippet_search 3 () [HumanMessage ''What is X?'']
   \<noteq> Some (Inr [HumanMessage ''What is X?'', AIMessage (record_with ''X is Y'' [''q1''] None)])
   \<and> (case invoke (default_config\<lparr>MAX_ITERATIONS := 0\<rparr>)
              (fixed_llm (record_with ''X is Y'' [''q1''] None))
              snippet_search 3 () [HumanMessage ''What is X?''] of
         Some (Inr h) \<Rightarrow> length h = 4 \<and> is_ToolMessage (h ! 2)
       | _ \<Rightarrow> False)"
  by (simp add: scenario_defs numeral_3_eq_3)

subsection \<open>The revision step sees the entire history\<close>

lemma fields_strict_superset: "set (fields AnswerQuestion) \<subset> set (fields ReviseAnswer)"
proof -
  have a: "''references'' \<notin> set (fields AnswerQuestion)"
    by (simp add: AnswerQuestion_fields_def)
  have b: "''references'' \<in> set (fields ReviseAnswer)"
    by (simp add: ReviseAnswer_fields_def)
  have c: "set (fields AnswerQuestion) \<subseteq> set (fields ReviseAnswer)"
    by (simp add: ReviseAnswer_fields_def subset_insertI)
  from a b c show ?thesis by blast
qed

lemma invoke_revisions:
  assumes "invoke cfg llm search steps s init = Some (Inr h)"
  shows "\<exists>m1 rest. h = init @ AIMessage m1 # rest
           \<and> (\<forall>pre m post. rest = pre @ AIMessage m # post \<longrightarrow>
                 llm ReviseAnswer (SystemMessage revision_prompt # init @ AIMessage m1 # pre)
                   = Inr m)"
proof -
  from invoke_history[OF assms] obtain m1 rest where
    h: "h = init @ AIMessage m1 # rest" and g: "grounded llm (init @ [AIMessage m1]) rest"
    by blast
  have "\<forall>pre m post. rest = pre @ AIMessage m # post \<longrightarrow>
          llm ReviseAnswer (SystemMessage revision_prompt # init @ AIMessage m1 # pre) = Inr m"
    using g unfolding grounded_def by simp
  with h show ?thesis by blast
qed

text \<open>
  C6: the revision step asks the backend, bound to the ReviseAnswer schema, with the whole
  state behind the system text, and returns its answer (or, in verbose mode, the
  \<open>KeyError\<close> of the progress line). In every finished run, each AI message after the initial
  one is the backend's answer to the entire history before it, question included. The fields
  of ReviseAnswer are those of AnswerQuestion followed by \<open>references\<close>, a strict superset.
\<close>

theorem revision_sees_entire_history:
  "revise_answer cfg llm state =
     (case llm ReviseAnswer (SystemMessage revision_prompt # state) of
        Inl e \<Rightarrow> Inl e
      | Inr m \<Rightarrow> if VERBOSE cfg \<and> tool_calls m \<noteq> [] \<and> answer (args (hd (tool_calls m))) = None
                 then Inl (KeyError ''answer'') else Inr m)
   \<and> (invoke cfg llm search steps s init = Some (Inr h) \<longrightarrow>
        (\<exists>m1 rest. h = init @ AIMessage m1 # rest
           \<and> (\<forall>pre m post. rest = pre @ AIMessage m # post \<longrightarrow>
                 llm ReviseAnswer (SystemMessage revision_prompt # init @ AIMessage m1 # pre)
                   = Inr m)))
   \<and> fields ReviseAnswer = fields AnswerQuestion @ [''references'']
   \<and> set (fields AnswerQuestion) \<subset> set (fields ReviseAnswer)"
proof (intro conjI impI)
  show "revise_answer cfg llm state =
     (case llm ReviseAnswer (SystemMessage revision_prompt # state) of
        Inl e \<Rightarrow> Inl e
      | Inr m \<Rightarrow> if VERBOSE cfg \<and> tool_calls m \<noteq> [] \<and> answer (args (hd (tool_calls m))) = None
                 then Inl (KeyError ''answer'') else Inr m)"
    by (rule revise_answer_cases)
next
  assume "invoke cfg llm search steps s init = Some (Inr h)"
  then show "\<exists>m1 rest. h = init @ AIMessage m1 # rest
           \<and> (\<forall>pre m post. rest = pre @ AIMessage m # post \<longrightarrow>
                 llm ReviseAnswer (SystemMessage revision_prompt # init @ AIMessage m1 # pre)
                   = Inr m)"
    by (rule invoke_revisions)
next
  show "fields ReviseAnswer = fields AnswerQuestion @ [''references'']"
    by (simp add: ReviseAnswer_fields_def)
next
  show "set (fields AnswerQuestion) \<subset> set (fields ReviseAnswer)"
    by (rule fields_strict_superset)
qed

lemma one_iteration_run: "invoke (default_config\<lparr>MAX_ITERATIONS := 1\<rparr>)
        (fixed_llm (record_with ''X is Y'' [''q1''] None)) snippet_search 3 ()
        [HumanMessage ''What is X?'']
      = Some (Inr [HumanMessage ''What is X?'', AIMessage (record_with ''X is Y'' [''q1''] None),
        ToolMessage [(''q1'', ''snippet-1'')] ''call_1'',
        AIMessage (record_with ''X is Y'' [''q1''] None)])"
    by (simp add: scenario_defs numeral_3_eq_3)

theorem revision_sees_entire_history_witness:
  "\<exists>m1 rest.
     [HumanMessage ''What is X?'', AIMessage (record_with ''X is Y'' [''q1''] None),
        ToolMessage [(''q1'', ''snippet-1'')] ''call_1'',
        AIMessage (record_with ''X is Y'' [''q1''] None)]
       = [HumanMessage ''What is X?''] @ AIMessage m1 # rest
     \<and> (\<forall>pre m post. rest = pre @ AIMessage m # post \<longrightarrow>
           fixed_llm (record_with ''X is Y'' [''q1''] None) ReviseAnswer
             (SystemMessage revision_prompt # [HumanMessage ''What is X?''] @ AIMessage m1 # pre)
           = Inr m)"
proof -
  note t = revision_sees_entire_history[where cfg = "default_config\<lparr>MAX_ITERATIONS := 1\<rparr>"
        and llm = "fixed_llm (record_with ''X is Y'' [''q1''] None)" and state = "[]"
        and search = snippet_search and steps = 3 and s = "()"
        and init = "[HumanMessage ''What is X?'']"
        and h = "[HumanMessage ''What is X?'', AIMessage (record_with ''X is Y'' [''q1''] None),
          ToolMessage [(''q1'', ''snippet-1'')] ''call_1'',
          AIMessage (record_with ''X is Y'' [''q1''] None)]"]
  from t have imp: "invoke (default_config\<lparr>MAX_ITERATIONS := 1\<rparr>)
        (fixed_llm (record_with ''X is Y'' [''q1''] None)) snippet_search 3 ()
        [HumanMessage ''What is X?'']
      = Some (Inr [HumanMessage ''What is X?'', AIMessage (record_with ''X is Y'' [''q1''] None),
        ToolMessage [(''q1'', ''snippet-1'')] ''call_1'',
        AIMessage (record_with ''X is Y'' [''q1''] None)]) \<longrightarrow> ?thesis"
    by (elim conjE)
  from imp one_iteration_run show ?thesis by (rule mp)
qed

subsection \<open>Records are accepted as the backend returns them\<close>




end
